theory Spec2Isabelle
  imports Main "HOL-Library.Multiset"
begin

section \<open>The Countdown numbers solver (numbersSolver.py)\<close>

text \<open>
  The program works on Python lists whose top of stack is the last element, on tokens that
  are either an \<open>int\<close> or a \<open>str\<close>, and on unbounded integers. Lists are kept in
  Python's order (\<open>stack[-1]\<close> is \<^term>\<open>last stack\<close>), tokens are a datatype with one
  constructor for each dynamic type, and integers are \<^typ>\<open>int\<close>. Every exception the
  code can raise is a value; calls to \<open>print\<close> are not modelled.
\<close>

subsection \<open>Tokens and exceptions\<close>

datatype element = Number int | Str string

datatype pyError = ValueError | IndexError | UnboundLocalError

type_synonym stack = "int list"

subsection \<open>rpnEvaluate\<close>

text \<open>
  \<open>rpnEvaluate(stack, element)\<close> mutates \<open>stack\<close> in place. The model returns the
  stack after the call; when the call raises, it returns the exception together with the
  stack as the call left it. \<open>stack[-2]\<close> raises \<open>IndexError\<close> on fewer than two
  elements and \<open>stack[-1]\<close> on none. A string that is none of the four operators leaves
  \<open>result\<close> unbound: \<open>stack.pop()\<close> runs (or raises on the empty list) and reading
  \<open>result\<close> raises.
\<close>

definition pop :: "'a list \<Rightarrow> 'a list" where
  "pop xs = butlast xs"

definition setLast :: "'a list \<Rightarrow> 'a \<Rightarrow> 'a list" where
  "setLast xs v = xs[length xs - 1 := v]"

definition second :: "stack \<Rightarrow> int" where
  "second stack = stack ! (length stack - 2)"

definition popStore :: "stack \<Rightarrow> int \<Rightarrow> (pyError \<times> stack) + stack" where
  "popStore stack result = Inr (setLast (pop stack) result)"

definition rpnEvaluate :: "stack \<Rightarrow> element \<Rightarrow> (pyError \<times> stack) + stack" where
  "rpnEvaluate stack element =
     (case element of
        Number n \<Rightarrow> Inr (stack @ [n])
      | Str s \<Rightarrow>
          if s = ''+'' then
            (if length stack < 2 then Inl (IndexError, stack)
             else popStore stack (second stack + last stack))
          else if s = ''-'' then
            (if length stack < 2 then Inl (IndexError, stack)
             else let result = second stack - last stack in
               if result < 0 then Inl (ValueError, stack)
               else popStore stack result)
          else if s = ''*'' then
            (if length stack < 2 then Inl (IndexError, stack)
             else popStore stack (second stack * last stack))
          else if s = ''/'' then
            (if stack = [] then Inl (IndexError, stack)
             else if last stack = 0 then Inl (ValueError, stack)
             else if length stack < 2 then Inl (IndexError, stack)
             else let result = second stack div last stack;
                      remainder = second stack mod last stack in
               if remainder \<noteq> 0 then Inl (ValueError, stack)
               else popStore stack result)
          else
            (if stack = [] then Inl (IndexError, stack)
             else Inl (UnboundLocalError, pop stack)))"

definition operatorSet :: "string list" where
  "operatorSet = [''+'', ''-'', ''*'', ''/'']"

subsection \<open>generateRandomSequence\<close>

text \<open>
  The three calls into Python's \<open>random\<close> module are the only source of nondeterminism.
  They are a parameter: \<open>shuffle\<close> is the list \<open>random.shuffle\<close> leaves in place of its
  argument, \<open>coin rnd i\<close> is the value of \<open>random.random() < 0.5\<close> in iteration \<open>i\<close> of
  the loop, and \<open>sample rnd i\<close> is the list \<open>random.sample(operatorSet, 4)\<close> returns
  in iteration \<open>i\<close>. What the library guarantees (a shuffle permutes, a sample of all
  four is a permutation of the four) is a hypothesis of the theorems below, not part of
  the definitions.
\<close>

record rng =
  shuffle :: "int list \<Rightarrow> int list"
  coin :: "nat \<Rightarrow> bool"
  sample :: "nat \<Rightarrow> string list"

text \<open>The loop state: \<open>numbers\<close>, \<open>sequence\<close>, \<open>stack\<close>, \<open>interimResults\<close>.\<close>

type_synonym genState = "int list \<times> element list \<times> stack \<times> int list"

text \<open>A \<open>for\<close> loop over a range whose body may raise.\<close>

fun forRange :: "nat list \<Rightarrow> (nat \<Rightarrow> 's \<Rightarrow> pyError + 's) \<Rightarrow> 's \<Rightarrow> pyError + 's" where
  "forRange [] body s = Inr s"
| "forRange (i # is) body s =
     (case body i s of Inl err \<Rightarrow> Inl err | Inr s' \<Rightarrow> forRange is body s')"

text \<open>\<open>nextElement == 'number'\<close>, decided by the first three branches of the loop body.\<close>

definition nextElementIsNumber :: "rng \<Rightarrow> nat \<Rightarrow> stack \<Rightarrow> int list \<Rightarrow> bool" where
  "nextElementIsNumber rnd i stack numbers =
     (if length stack < 2 then True
      else if length numbers = 0 then False
      else coin rnd i)"

text \<open>
  The inner loop \<open>for operator in operators: try ... break / except ValueError: continue\<close>.
  It returns the stack and the last value bound to the loop variable \<open>operator\<close>: the
  operator that succeeded, or the last one tried when every one raised \<open>ValueError\<close>.
  Any other exception propagates.
\<close>

fun tryOperators :: "stack \<Rightarrow> string option \<Rightarrow> string list \<Rightarrow> pyError + (stack \<times> string option)" where
  "tryOperators stack operator [] = Inr (stack, operator)"
| "tryOperators stack operator (op # operators) =
     (case rpnEvaluate stack (Str op) of
        Inr stack' \<Rightarrow> Inr (stack', Some op)
      | Inl (err, stack') \<Rightarrow>
          if err = ValueError then tryOperators stack' (Some op) operators else Inl err)"

definition genBody :: "rng \<Rightarrow> nat \<Rightarrow> genState \<Rightarrow> pyError + genState" where
  "genBody rnd i st =
     (case st of (numbers, sequence, stack, interimResults) \<Rightarrow>
        if nextElementIsNumber rnd i stack numbers then
          (if numbers = [] then Inl IndexError
           else let element = last numbers in
             Inr (pop numbers, sequence @ [Number element], stack @ [element], interimResults))
        else
          (case tryOperators stack None (sample rnd i) of
             Inl err \<Rightarrow> Inl err
           | Inr (stack', None) \<Rightarrow> Inl UnboundLocalError
           | Inr (stack', Some operator) \<Rightarrow>
               if stack' = [] then Inl IndexError
               else Inr (numbers, sequence @ [Str operator], stack',
                         interimResults @ [last stack'])))"

definition genInit :: "rng \<Rightarrow> int list \<Rightarrow> pyError + genState" where
  "genInit rnd numbersIn =
     (let interimResults = numbersIn;
          numbers = shuffle rnd numbersIn
      in if numbers = [] then Inl IndexError
         else let e1 = last numbers; numbers = pop numbers
           in if numbers = [] then Inl IndexError
              else let e2 = last numbers; numbers = pop numbers
                in Inr (numbers, [Number e1, Number e2], [e1, e2], interimResults))"

definition generateRandomSequence :: "rng \<Rightarrow> int list \<Rightarrow> pyError + (element list \<times> int list)" where
  "generateRandomSequence rnd numbersIn =
     (case genInit rnd numbersIn of
        Inl err \<Rightarrow> Inl err
      | Inr st \<Rightarrow>
          (case forRange [0..<9] (genBody rnd) st of
             Inl err \<Rightarrow> Inl err
           | Inr (numbers, sequence, stack, interimResults) \<Rightarrow>
               Inr (sequence, interimResults)))"

subsection \<open>formatSolution\<close>

text \<open>
  \<open>str(n)\<close> for an integer is its decimal numeral, with a minus sign when negative;
  \<open>char.isnumeric()\<close> on the characters that can occur in an expression (digits,
  parentheses, blanks, the operator strings) holds of the ten digits; \<open>s.split(' ')\<close>
  cuts at every single blank and keeps the empty pieces.
\<close>

definition digitChar :: "nat \<Rightarrow> char" where
  "digitChar d = ''0123456789'' ! d"

fun natStr :: "nat \<Rightarrow> string" where
  "natStr n = (if n < 10 then [digitChar n] else natStr (n div 10) @ [digitChar (n mod 10)])"

definition pyStr :: "int \<Rightarrow> string" where
  "pyStr i = (if i < 0 then CHR ''-'' # natStr (nat (- i)) else natStr (nat i))"

definition isnumeric :: "char \<Rightarrow> bool" where
  "isnumeric c = (c \<in> set ''0123456789'')"

fun pySplit :: "char \<Rightarrow> string \<Rightarrow> string list" where
  "pySplit sep [] = [[]]"
| "pySplit sep (c # cs) =
     (if c = sep then [] # pySplit sep cs
      else (case pySplit sep cs of [] \<Rightarrow> [[c]] | t # ts \<Rightarrow> (c # t) # ts))"

text \<open>\<open>'({} {} {})'.format(l, element, r)\<close>\<close>

definition paren :: "string \<Rightarrow> string \<Rightarrow> string \<Rightarrow> string" where
  "paren l element r = ''('' @ l @ '' '' @ element @ '' '' @ r @ '')''"

text \<open>
  One pass of the loop body on \<open>calcStack\<close> and \<open>outputStack\<close>. The third component
  of the result is whether the body ended in \<open>break\<close>. An exception of \<open>rpnEvaluate\<close>
  is not caught here, and the \<open>continue\<close> of the first branch skips the comparison
  with the target.
\<close>

definition formatElement ::
  "bool \<Rightarrow> int \<Rightarrow> stack \<Rightarrow> string list \<Rightarrow> element
     \<Rightarrow> pyError + (stack \<times> string list \<times> bool)" where
  "formatElement ignoreMultiplyByOne target calcStack outputStack element =
     (if ignoreMultiplyByOne \<and> length calcStack > 0 \<and> last calcStack = 1
         \<and> element \<in> set [Str ''*'', Str ''/'']
      then
        (if outputStack = [] then Inl IndexError
         else Inr (pop calcStack, pop outputStack, False))
      else
        (case rpnEvaluate calcStack element of
           Inl (err, calcStack') \<Rightarrow> Inl err
         | Inr calcStack' \<Rightarrow>
             (case element of
                Number n \<Rightarrow> Inr (calcStack', outputStack @ [pyStr n], False)
              | Str s \<Rightarrow>
                  if length outputStack < 2 then Inl IndexError
                  else
                    let l = outputStack ! (length outputStack - 2);
                        r = last outputStack;
                        result = (if s \<in> set [''+'', ''*''] \<and> length l < length r
                                  then paren r s l else paren l s r);
                        outputStack' = setLast (pop outputStack) result
                    in if calcStack' = [] then Inl IndexError
                       else Inr (calcStack', outputStack', last calcStack' = target))))"

fun formatLoop ::
  "bool \<Rightarrow> int \<Rightarrow> stack \<Rightarrow> string list \<Rightarrow> element list
     \<Rightarrow> pyError + (stack \<times> string list)" where
  "formatLoop ignoreMultiplyByOne target calcStack outputStack [] =
     Inr (calcStack, outputStack)"
| "formatLoop ignoreMultiplyByOne target calcStack outputStack (element # rest) =
     (case formatElement ignoreMultiplyByOne target calcStack outputStack element of
        Inl err \<Rightarrow> Inl err
      | Inr (calcStack', outputStack', stop) \<Rightarrow>
          if stop then Inr (calcStack', outputStack')
          else formatLoop ignoreMultiplyByOne target calcStack' outputStack' rest)"

definition countNumbers :: "string \<Rightarrow> nat" where
  "countNumbers expr =
     (let tempString = map (\<lambda>c. if isnumeric c then c else CHR '' '') expr;
          tokens = pySplit (CHR '' '') tempString
      in foldl (\<lambda>numbersUsed token. if length token > 0 then numbersUsed + 1 else numbersUsed)
           0 tokens)"

definition formatSolution :: "element list \<Rightarrow> int \<Rightarrow> bool \<Rightarrow> pyError + (string \<times> nat)" where
  "formatSolution sequence target ignoreMultiplyByOne =
     (case formatLoop ignoreMultiplyByOne target [] [] sequence of
        Inl err \<Rightarrow> Inl err
      | Inr (calcStack, outputStack) \<Rightarrow>
          if outputStack = [] then Inl IndexError
          else Inr (last outputStack @ '' = '' @ pyStr target,
                    countNumbers (last outputStack)))"

subsection \<open>The search loop of the main program\<close>

text \<open>
  \<open>closestSolution\<close> is \<open>None\<close> or a pair of a result and the sequence it came from.
  \<open>updateClosest\<close> is the body of \<open>for result in interimResults\<close>,
  \<open>scanResults\<close> that loop, and \<open>scanAttempts\<close> its repetition over the attempts
  the \<open>while\<close> loop makes, each attempt being what \<open>generateRandomSequence\<close> returned.
  How many attempts are made depends on the clock and is not modelled.
\<close>

type_synonym candidate = "int \<times> element list"

definition updateClosest ::
  "int \<Rightarrow> element list \<Rightarrow> candidate option \<Rightarrow> int \<Rightarrow> candidate option" where
  "updateClosest target sequence closestSolution result =
     (case closestSolution of
        None \<Rightarrow> Some (result, sequence)
      | Some c \<Rightarrow>
          if \<bar>target - result\<bar> < \<bar>target - fst c\<bar> then Some (result, sequence)
          else closestSolution)"

definition scanResults ::
  "int \<Rightarrow> element list \<Rightarrow> candidate option \<Rightarrow> int list \<Rightarrow> candidate option" where
  "scanResults target sequence closestSolution interimResults =
     foldl (updateClosest target sequence) closestSolution interimResults"

fun scanAttempts ::
  "int \<Rightarrow> candidate option \<Rightarrow> (element list \<times> int list) list \<Rightarrow> candidate option" where
  "scanAttempts target closestSolution [] = closestSolution"
| "scanAttempts target closestSolution ((sequence, interimResults) # attempts) =
     scanAttempts target (scanResults target sequence closestSolution interimResults) attempts"

subsection \<open>Notions the properties are stated with\<close>

text \<open>The values of the \<open>int\<close> tokens and the strings of the \<open>str\<close> tokens of a sequence.\<close>

fun numbersOf :: "element list \<Rightarrow> int list" where
  "numbersOf [] = []"
| "numbersOf (Number n # es) = n # numbersOf es"
| "numbersOf (Str s # es) = numbersOf es"

fun operatorsOf :: "element list \<Rightarrow> string list" where
  "operatorsOf [] = []"
| "operatorsOf (Number n # es) = operatorsOf es"
| "operatorsOf (Str s # es) = s # operatorsOf es"

text \<open>By how many the operand tokens of a sequence exceed its operator tokens.\<close>

definition operandExcess :: "element list \<Rightarrow> int" where
  "operandExcess es = int (length (numbersOf es)) - int (length (operatorsOf es))"

text \<open>
  Replaying a sequence left to right through \<open>rpnEvaluate\<close>, collecting the top of the
  stack after every operator.
\<close>

fun replayFrom ::
  "stack \<Rightarrow> int list \<Rightarrow> element list \<Rightarrow> (pyError \<times> stack) + (stack \<times> int list)" where
  "replayFrom stack results [] = Inr (stack, results)"
| "replayFrom stack results (element # rest) =
     (case rpnEvaluate stack element of
        Inl err \<Rightarrow> Inl err
      | Inr stack' \<Rightarrow>
          replayFrom stack'
            (case element of Number n \<Rightarrow> results | Str s \<Rightarrow> results @ [last stack']) rest)"

definition replay :: "element list \<Rightarrow> (pyError \<times> stack) + (stack \<times> int list)" where
  "replay sequence = replayFrom [] [] sequence"

text \<open>
  What the \<open>random\<close> module guarantees of its results: the shuffled list is a permutation
  of the list given, and every sample of four out of the four operators is a permutation
  of them.
\<close>

definition validRandom :: "rng \<Rightarrow> int list \<Rightarrow> bool" where
  "validRandom rnd numbersIn =
     (mset (shuffle rnd numbersIn) = mset numbersIn
      \<and> (\<forall>i. mset (sample rnd i) = mset operatorSet))"

text \<open>
  The state of \<open>generateRandomSequence\<close> before iteration \<open>i\<close> of its loop, and whether
  every operator of a list raises \<open>ValueError\<close> on a stack.
\<close>

definition genPrefix :: "rng \<Rightarrow> int list \<Rightarrow> nat \<Rightarrow> pyError + genState" where
  "genPrefix rnd numbersIn i =
     (case genInit rnd numbersIn of
        Inl err \<Rightarrow> Inl err
      | Inr st \<Rightarrow> forRange [0..<i] (genBody rnd) st)"

definition raisesValueError :: "stack \<Rightarrow> string \<Rightarrow> bool" where
  "raisesValueError stack op =
     (case rpnEvaluate stack (Str op) of Inl (err, s) \<Rightarrow> err = ValueError | Inr s \<Rightarrow> False)"

definition allIllegal :: "stack \<Rightarrow> string list \<Rightarrow> bool" where
  "allIllegal stack operators = list_all (raisesValueError stack) operators"

text \<open>
  The loop invariant of \<open>generateRandomSequence\<close> after \<open>k\<close> iterations: the sizes of the
  stack and of the numbers left, the tokens emitted so far, and the replay of the sequence.
\<close>

definition genInv :: "int list \<Rightarrow> nat \<Rightarrow> genState \<Rightarrow> bool" where
  "genInv numbersIn k st =
     (case st of (numbers, sequence, stack, interimResults) \<Rightarrow>
        length stack + 2 * length numbers + k = 10 \<and> 1 \<le> length stack
        \<and> length sequence = 2 + k
        \<and> mset (numbersOf sequence) + mset numbers = mset numbersIn
        \<and> set (operatorsOf sequence) \<subseteq> set operatorSet
        \<and> operandExcess sequence = int (length stack)
        \<and> (\<forall>j. 1 \<le> j \<and> j \<le> length sequence \<longrightarrow> 1 \<le> operandExcess (take j sequence))
        \<and> (\<exists>tops. replay sequence = Inr (stack, tops) \<and> interimResults = numbersIn @ tops))"

text \<open>
  Every interim result the search loop sees with the sequence it came from, in the order
  seen; and the loop body on such a pair.
\<close>

definition candidatesOf :: "(element list \<times> int list) list \<Rightarrow> candidate list" where
  "candidatesOf attempts =
     concat (map (\<lambda>(sequence, interimResults). map (\<lambda>result. (result, sequence)) interimResults)
               attempts)"

definition offer :: "int \<Rightarrow> candidate option \<Rightarrow> candidate \<Rightarrow> candidate option" where
  "offer target closestSolution c = updateClosest target (snd c) closestSolution (fst c)"

text \<open>Concrete random choices used to run the generator on examples.\<close>

definition operatorsFirst :: rng where
  "operatorsFirst = \<lparr>shuffle = rev, coin = (\<lambda>i. False), sample = (\<lambda>i. operatorSet)\<rparr>"

definition numbersFirst :: rng where
  "numbersFirst = \<lparr>shuffle = rev, coin = (\<lambda>i. True), sample = (\<lambda>i. rev operatorSet)\<rparr>"

definition timesOneFirst :: rng where
  "timesOneFirst =
     \<lparr>shuffle = rev, coin = (\<lambda>i. False),
      sample = (\<lambda>i. if i = 0 then [''*'', ''+'', ''-'', ''/''] else operatorSet)\<rparr>"

subsection \<open>The evaluator on a stack of at least two values\<close>

lemma second_snoc2: "second (st @ [a, b]) = a"
  by (simp add: second_def nth_append)

lemma popStore_snoc2: "popStore (st @ [a, b]) r = Inr (st @ [r])"
proof -
  have "pop (st @ [a, b]) = st @ [a]"
    by (simp add: pop_def butlast_append)
  then show ?thesis
    by (simp add: popStore_def setLast_def)
qed

lemma two_top: "2 \<le> length (stack :: stack) \<Longrightarrow> \<exists>st a b. stack = st @ [a, b]"
proof -
  assume len: "2 \<le> length stack"
  then have ne: "stack \<noteq> []" by auto
  from len have ne': "butlast stack \<noteq> []"
    by (cases stack rule: rev_cases) auto
  have "stack = butlast (butlast stack) @ [last (butlast stack), last stack]"
    using ne ne' by (metis append_butlast_last_id append_assoc append_Cons append_Nil)
  then show ?thesis by blast
qed

lemma rpnEvaluate_add: "rpnEvaluate (st @ [a, b]) (Str ''+'') = Inr (st @ [a + b])"
  by (simp add: rpnEvaluate_def second_snoc2 popStore_snoc2)

lemma rpnEvaluate_mul: "rpnEvaluate (st @ [a, b]) (Str ''*'') = Inr (st @ [a * b])"
  by (simp add: rpnEvaluate_def second_snoc2 popStore_snoc2)

lemma rpnEvaluate_sub:
  "rpnEvaluate (st @ [a, b]) (Str ''-'') =
     (if a < b then Inl (ValueError, st @ [a, b]) else Inr (st @ [a - b]))"
  by (simp add: rpnEvaluate_def second_snoc2 popStore_snoc2 Let_def)

lemma rpnEvaluate_div:
  "rpnEvaluate (st @ [a, b]) (Str ''/'') =
     (if b = 0 \<or> a mod b \<noteq> 0 then Inl (ValueError, st @ [a, b]) else Inr (st @ [a div b]))"
  by (simp add: rpnEvaluate_def second_snoc2 popStore_snoc2 Let_def)

lemma rpnEvaluate_Number: "rpnEvaluate stack (Number n) = Inr (stack @ [n])"
  by (simp add: rpnEvaluate_def)

text \<open>
  C1. With \<open>a\<close> second from the top and \<open>b\<close> on top, \<open>+\<close> and \<open>*\<close> return (the two values
  replaced by the sum, the product); \<open>-\<close> raises \<open>ValueError\<close> exactly when \<open>a < b\<close>;
  \<open>/\<close> raises \<open>ValueError\<close> exactly when \<open>b = 0\<close> or \<open>a mod b \<noteq> 0\<close>. No other
  exception is raised. This holds for all integers, so for all non-negative ones.
\<close>

theorem rpnEvaluate_legality:
  "rpnEvaluate (st @ [a, b]) (Str ''+'') = Inr (st @ [a + b])
   \<and> rpnEvaluate (st @ [a, b]) (Str ''*'') = Inr (st @ [a * b])
   \<and> (isl (rpnEvaluate (st @ [a, b]) (Str ''-'')) = (a < b))
   \<and> ((\<exists>s. rpnEvaluate (st @ [a, b]) (Str ''-'') = Inl (ValueError, s)) = (a < b))
   \<and> (isl (rpnEvaluate (st @ [a, b]) (Str ''/'')) = (b = 0 \<or> a mod b \<noteq> 0))
   \<and> ((\<exists>s. rpnEvaluate (st @ [a, b]) (Str ''/'') = Inl (ValueError, s))
        = (b = 0 \<or> a mod b \<noteq> 0))"
  by (simp add: rpnEvaluate_add rpnEvaluate_mul rpnEvaluate_sub rpnEvaluate_div)

text \<open>
  C4. When \<open>rpnEvaluate\<close> raises \<open>ValueError\<close> (a negative difference, a zero divisor, an
  inexact division), the stack it leaves is the stack it was given.
\<close>

theorem rpnEvaluate_ValueError_stack:
  "rpnEvaluate stack element = Inl (ValueError, stack') \<Longrightarrow> stack' = stack"
  by (auto simp: rpnEvaluate_def popStore_def Let_def split: element.splits if_splits)

theorem rpnEvaluate_ValueError_stack_witness:
  "rpnEvaluate [4, 6] (Str ''-'') = Inl (ValueError, [4, 6])
   \<and> rpnEvaluate [10, 0] (Str ''/'') = Inl (ValueError, [10, 0])
   \<and> rpnEvaluate [7, 2] (Str ''/'') = Inl (ValueError, [7, 2])"
proof -
  have a: "rpnEvaluate [4, 6] (Str ''-'') = Inl (ValueError, [4, 6])"
    by (simp add: rpnEvaluate_def second_def Let_def)
  have b: "rpnEvaluate [10, 0] (Str ''/'') = Inl (ValueError, [10, 0])"
    by (simp add: rpnEvaluate_def second_def Let_def)
  have c: "rpnEvaluate [7, 2] (Str ''/'') = Inl (ValueError, [7, 2])"
    by (simp add: rpnEvaluate_def second_def Let_def)
  from rpnEvaluate_ValueError_stack [OF a] rpnEvaluate_ValueError_stack [OF b]
    rpnEvaluate_ValueError_stack [OF c] a b c
  show ?thesis by simp
qed


subsection \<open>The loop of generateRandomSequence\<close>

lemma forRange_rule:
  assumes "I k s" and "k \<le> m"
    and step: "\<And>i t. k \<le> i \<Longrightarrow> i < m \<Longrightarrow> I i t \<Longrightarrow> \<exists>t'. body i t = Inr t' \<and> I (Suc i) t'"
  shows "\<exists>s'. forRange [k..<m] body s = Inr s' \<and> I m s'"
  using assms
proof (induction "m - k" arbitrary: k s)
  case 0
  then show ?case by simp
next
  case (Suc d)
  then have lt: "k < m" by simp
  from Suc.prems(3) [of k s] lt Suc.prems(1)
  obtain t' where t': "body k s = Inr t'" "I (Suc k) t'" by auto
  have "\<exists>s'. forRange [Suc k..<m] body t' = Inr s' \<and> I m s'"
  proof (rule Suc.hyps(1))
    show "d = m - Suc k" using Suc.hyps(2) by simp
    show "I (Suc k) t'" by (rule t'(2))
    show "Suc k \<le> m" using lt by simp
    show "\<And>i t. Suc k \<le> i \<Longrightarrow> i < m \<Longrightarrow> I i t \<Longrightarrow> \<exists>t'. body i t = Inr t' \<and> I (Suc i) t'"
      using Suc.prems(3) by simp
  qed
  then show ?case using lt t'(1) by (simp add: upt_conv_Cons)
qed

lemma rpnEvaluate_operator:
  assumes "op \<in> set operatorSet" and "2 \<le> length stack"
  shows "(\<exists>stack'. rpnEvaluate stack (Str op) = Inr stack' \<and> length stack' + 1 = length stack)
         \<or> rpnEvaluate stack (Str op) = Inl (ValueError, stack)"
proof -
  from two_top [OF assms(2)] obtain st a b where st: "stack = st @ [a, b]" by blast
  from assms(1) have "op = ''+'' \<or> op = ''-'' \<or> op = ''*'' \<or> op = ''/''"
    by (simp add: operatorSet_def)
  then show ?thesis
    unfolding st
    by (auto simp: rpnEvaluate_add rpnEvaluate_mul rpnEvaluate_sub rpnEvaluate_div
        split: if_splits)
qed

lemma tryOperators_legal:
  assumes "set ops \<subseteq> set operatorSet" and "''+'' \<in> set ops" and "2 \<le> length stack"
  shows "\<exists>op stack'. tryOperators stack cur ops = Inr (stack', Some op) \<and> op \<in> set ops
           \<and> rpnEvaluate stack (Str op) = Inr stack' \<and> length stack' + 1 = length stack"
  using assms
proof (induction ops arbitrary: cur)
  case Nil
  then show ?case by simp
next
  case (Cons op ops)
  from Cons.prems(1) have opin: "op \<in> set operatorSet" by simp
  from rpnEvaluate_operator [OF opin Cons.prems(3)]
  show ?case
  proof
    assume "\<exists>stack'. rpnEvaluate stack (Str op) = Inr stack' \<and> length stack' + 1 = length stack"
    then show ?thesis by auto
  next
    assume fail: "rpnEvaluate stack (Str op) = Inl (ValueError, stack)"
    then have "op \<noteq> ''+''"
      using two_top [OF Cons.prems(3)] by (auto simp: rpnEvaluate_add)
    with Cons.prems have "set ops \<subseteq> set operatorSet" "''+'' \<in> set ops" by auto
    from Cons.IH [OF this Cons.prems(3), of "Some op"] fail
    show ?thesis by auto
  qed
qed


lemma numbersOf_append: "numbersOf (xs @ ys) = numbersOf xs @ numbersOf ys"
  by (induction xs rule: numbersOf.induct) simp_all

lemma operatorsOf_append: "operatorsOf (xs @ ys) = operatorsOf xs @ operatorsOf ys"
  by (induction xs rule: operatorsOf.induct) simp_all

lemma length_numbersOf_operatorsOf:
  "length (numbersOf es) + length (operatorsOf es) = length es"
  by (induction es rule: numbersOf.induct) simp_all

lemma replayFrom_snoc:
  "replayFrom stack results (es @ [e]) =
     (case replayFrom stack results es of
        Inl err \<Rightarrow> Inl err
      | Inr (stack', results') \<Rightarrow> replayFrom stack' results' [e])"
  by (induction es arbitrary: stack results) (simp_all split: sum.splits)

lemma operandExcess_snoc_Number: "operandExcess (es @ [Number n]) = operandExcess es + 1"
  by (simp add: operandExcess_def numbersOf_append operatorsOf_append)

lemma operandExcess_snoc_Str: "operandExcess (es @ [Str s]) = operandExcess es - 1"
  by (simp add: operandExcess_def numbersOf_append operatorsOf_append)

lemma prefixes_snoc:
  assumes old: "\<forall>j. 1 \<le> j \<and> j \<le> length es \<longrightarrow> 1 \<le> operandExcess (take j es)"
    and new: "1 \<le> operandExcess (es @ [e])"
  shows "\<forall>j. 1 \<le> j \<and> j \<le> length (es @ [e]) \<longrightarrow> 1 \<le> operandExcess (take j (es @ [e]))"
proof (intro allI impI)
  fix j assume j: "1 \<le> j \<and> j \<le> length (es @ [e])"
  show "1 \<le> operandExcess (take j (es @ [e]))"
  proof (cases "j \<le> length es")
    case True
    then show ?thesis using old j by simp
  next
    case False
    with j have "j = Suc (length es)" by simp
    then show ?thesis using new by simp
  qed
qed

lemma genBody_cases:
  assumes ops: "mset (sample rnd k) = mset operatorSet"
    and cnt: "length stack + 2 * length numbers + k = 10" "1 \<le> length stack"
    and k: "k < 9"
  shows "(numbers \<noteq> []
          \<and> genBody rnd k (numbers, sequence, stack, interim)
              = Inr (pop numbers, sequence @ [Number (last numbers)], stack @ [last numbers],
                     interim))
       \<or> (\<exists>op stack'. op \<in> set operatorSet \<and> 2 \<le> length stack
            \<and> rpnEvaluate stack (Str op) = Inr stack' \<and> length stack' + 1 = length stack
            \<and> genBody rnd k (numbers, sequence, stack, interim)
                = Inr (numbers, sequence @ [Str op], stack', interim @ [last stack']))"
proof (cases "nextElementIsNumber rnd k stack numbers")
  case True
  have "numbers \<noteq> []"
  proof (cases "length stack < 2")
    case True
    with cnt k have "0 < length numbers" by arith
    then show ?thesis by simp
  next
    case False
    with \<open>nextElementIsNumber rnd k stack numbers\<close> show ?thesis
      by (auto simp: nextElementIsNumber_def split: if_splits)
  qed
  with True show ?thesis by (simp add: genBody_def Let_def)
next
  case False
  then have two: "2 \<le> length stack"
    by (auto simp: nextElementIsNumber_def split: if_splits)
  from ops have seteq: "set (sample rnd k) = set operatorSet" by (rule mset_eq_setD)
  then have sub: "set (sample rnd k) \<subseteq> set operatorSet"
    and plus: "''+'' \<in> set (sample rnd k)"
    by (simp_all add: operatorSet_def)
  from tryOperators_legal [OF sub plus two, of None]
  obtain op stack' where t: "tryOperators stack None (sample rnd k) = Inr (stack', Some op)"
    "op \<in> set (sample rnd k)" "rpnEvaluate stack (Str op) = Inr stack'"
    "length stack' + 1 = length stack" by blast
  from t(4) two have "stack' \<noteq> []" by auto
  with False t seteq two show ?thesis by (auto simp: genBody_def)
qed


lemma genInv_step:
  assumes ops: "mset (sample rnd k) = mset operatorSet"
    and inv: "genInv numbersIn k st" and k: "k < 9"
  shows "\<exists>st'. genBody rnd k st = Inr st' \<and> genInv numbersIn (Suc k) st'"
proof -
  obtain numbers sequence stack interim where st: "st = (numbers, sequence, stack, interim)"
    by (cases st) auto
  from inv have cnt: "length stack + 2 * length numbers + k = 10" "1 \<le> length stack"
    and len: "length sequence = 2 + k"
    and ms: "mset (numbersOf sequence) + mset numbers = mset numbersIn"
    and opsub: "set (operatorsOf sequence) \<subseteq> set operatorSet"
    and exc: "operandExcess sequence = int (length stack)"
    and pre: "\<forall>j. 1 \<le> j \<and> j \<le> length sequence \<longrightarrow> 1 \<le> operandExcess (take j sequence)"
    and rep: "\<exists>tops. replay sequence = Inr (stack, tops) \<and> interim = numbersIn @ tops"
    by (simp_all add: genInv_def st)
  from genBody_cases [OF ops cnt k, of sequence interim]
  show ?thesis
  proof (elim disjE exE conjE)
    assume ne: "numbers \<noteq> []"
      and body: "genBody rnd k (numbers, sequence, stack, interim)
        = Inr (pop numbers, sequence @ [Number (last numbers)], stack @ [last numbers], interim)"
    let ?seq = "sequence @ [Number (last numbers)]"
    have a: "length (stack @ [last numbers]) + 2 * length (pop numbers) + Suc k = 10"
      using cnt ne by (simp add: pop_def) (cases numbers rule: rev_cases, auto)
    have b: "mset (numbersOf ?seq) + mset (pop numbers) = mset numbersIn"
    proof -
      have "numbers = pop numbers @ [last numbers]" using ne by (simp add: pop_def)
      then have "mset numbers = mset (pop numbers) + {#last numbers#}"
        by (metis mset.simps(1) mset.simps(2) mset_append add_mset_add_single union_mset_add_mset_right add.right_neutral)
      with ms show ?thesis by (simp add: numbersOf_append)
    qed
    have c: "operandExcess ?seq = int (length (stack @ [last numbers]))"
      using exc by (simp add: operandExcess_snoc_Number)
    have d: "\<forall>j. 1 \<le> j \<and> j \<le> length ?seq \<longrightarrow> 1 \<le> operandExcess (take j ?seq)"
      by (rule prefixes_snoc [OF pre]) (simp add: c)
    have e: "\<exists>tops. replay ?seq = Inr (stack @ [last numbers], tops)
                 \<and> interim = numbersIn @ tops"
      using rep by (auto simp: replay_def replayFrom_snoc rpnEvaluate_Number)
    have f: "set (operatorsOf ?seq) \<subseteq> set operatorSet"
      using opsub by (simp add: operatorsOf_append)
    have "genInv numbersIn (Suc k)
            (pop numbers, ?seq, stack @ [last numbers], interim)"
      unfolding genInv_def prod.case using a b c d e f len by simp
    with body st show ?thesis by simp
  next
    fix op stack'
    assume opin: "op \<in> set operatorSet" and two: "2 \<le> length stack"
      and ev: "rpnEvaluate stack (Str op) = Inr stack'"
      and l: "length stack' + 1 = length stack"
      and body: "genBody rnd k (numbers, sequence, stack, interim)
          = Inr (numbers, sequence @ [Str op], stack', interim @ [last stack'])"
    let ?seq = "sequence @ [Str op]"
    have a: "length stack' + 2 * length numbers + Suc k = 10" "1 \<le> length stack'"
      using cnt l two by arith+
    have b: "mset (numbersOf ?seq) + mset numbers = mset numbersIn"
      using ms by (simp add: numbersOf_append)
    have c: "operandExcess ?seq = int (length stack')"
      using exc l by (simp add: operandExcess_snoc_Str)
    have d: "\<forall>j. 1 \<le> j \<and> j \<le> length ?seq \<longrightarrow> 1 \<le> operandExcess (take j ?seq)"
      by (rule prefixes_snoc [OF pre]) (use a c in simp)
    have e: "\<exists>tops. replay ?seq = Inr (stack', tops)
                 \<and> interim @ [last stack'] = numbersIn @ tops"
      using rep by (auto simp: replay_def replayFrom_snoc ev)
    have f: "set (operatorsOf ?seq) \<subseteq> set operatorSet"
      using opsub opin by (simp add: operatorsOf_append)
    have "genInv numbersIn (Suc k) (numbers, ?seq, stack', interim @ [last stack'])"
      unfolding genInv_def prod.case using a b c d e f len by simp
    with body st show ?thesis by simp
  qed
qed

lemma genInit_inv:
  assumes sh: "mset (shuffle rnd numbersIn) = mset numbersIn" and six: "length numbersIn = 6"
  shows "\<exists>st. genInit rnd numbersIn = Inr st \<and> genInv numbersIn 0 st"
proof -
  have "length (shuffle rnd numbersIn) = 6"
    using sh six by (metis size_mset)
  then have "2 \<le> length (shuffle rnd numbersIn)" by simp
  from two_top [OF this] obtain ns a b where ns: "shuffle rnd numbersIn = ns @ [a, b]"
    by blast
  with \<open>length (shuffle rnd numbersIn) = 6\<close> have lns: "length ns = 4" by simp
  have init: "genInit rnd numbersIn = Inr (ns, [Number b, Number a], [b, a], numbersIn)"
    by (simp add: genInit_def ns Let_def pop_def butlast_append)
  have m: "mset (numbersOf [Number b, Number a]) + mset ns = mset numbersIn"
    using sh by (simp add: ns add_mset_commute)
  have pre: "\<forall>j. 1 \<le> j \<and> j \<le> length [Number b, Number a]
               \<longrightarrow> 1 \<le> operandExcess (take j [Number b, Number a])"
  proof (intro allI impI)
    fix j assume "1 \<le> j \<and> j \<le> length [Number b, Number a]"
    then have "j = 1 \<or> j = 2" by auto
    then show "1 \<le> operandExcess (take j [Number b, Number a])"
      by (auto simp: operandExcess_def)
  qed
  have "genInv numbersIn 0 (ns, [Number b, Number a], [b, a], numbersIn)"
    unfolding genInv_def prod.case using lns m pre
    by (simp add: operandExcess_def replay_def rpnEvaluate_Number)
  with init show ?thesis by simp
qed

lemma generateRandomSequence_inv:
  assumes valid: "validRandom rnd numbersIn" and six: "length numbersIn = 6"
  shows "\<exists>sequence interimResults stack.
           generateRandomSequence rnd numbersIn = Inr (sequence, interimResults)
           \<and> genInv numbersIn 9 ([], sequence, stack, interimResults)"
proof -
  from valid have sh: "mset (shuffle rnd numbersIn) = mset numbersIn"
    and ops: "\<And>i. mset (sample rnd i) = mset operatorSet"
    by (simp_all add: validRandom_def)
  from genInit_inv [OF sh six] obtain st0 where
    st0: "genInit rnd numbersIn = Inr st0" "genInv numbersIn 0 st0" by blast
  have "\<exists>s'. forRange [0..<9] (genBody rnd) st0 = Inr s' \<and> genInv numbersIn 9 s'"
  proof (rule forRange_rule [where I = "genInv numbersIn"])
    show "genInv numbersIn 0 st0" by (rule st0(2))
    show "(0::nat) \<le> 9" by simp
    show "\<exists>t'. genBody rnd i t = Inr t' \<and> genInv numbersIn (Suc i) t'"
      if "i < 9" and "genInv numbersIn i t" for i t
      using that by (intro genInv_step [OF ops])
  qed
  then obtain s' where s': "forRange [0..<9] (genBody rnd) st0 = Inr s'"
    "genInv numbersIn 9 s'" by blast
  obtain numbers sequence stack interim where s'eq: "s' = (numbers, sequence, stack, interim)"
    by (cases s') auto
  from s'(2) have "length stack + 2 * length numbers + 9 = 10" "1 \<le> length stack"
    by (simp_all add: genInv_def s'eq)
  then have "length numbers = 0" by arith
  then have "numbers = []" by simp
  with s' s'eq st0 show ?thesis by (auto simp: generateRandomSequence_def)
qed

subsection \<open>Properties of generateRandomSequence\<close>

lemma genPrefix_inv:
  assumes valid: "validRandom rnd numbersIn" and six: "length numbersIn = 6" and i: "i \<le> 9"
  shows "\<exists>st. genPrefix rnd numbersIn i = Inr st \<and> genInv numbersIn i st"
proof -
  from valid have sh: "mset (shuffle rnd numbersIn) = mset numbersIn"
    and ops: "\<And>i. mset (sample rnd i) = mset operatorSet"
    by (simp_all add: validRandom_def)
  from genInit_inv [OF sh six] obtain st0 where
    st0: "genInit rnd numbersIn = Inr st0" "genInv numbersIn 0 st0" by blast
  have "\<exists>s'. forRange [0..<i] (genBody rnd) st0 = Inr s' \<and> genInv numbersIn i s'"
  proof (rule forRange_rule [where I = "genInv numbersIn"])
    show "genInv numbersIn 0 st0" by (rule st0(2))
    show "0 \<le> i" by simp
    show "\<exists>t'. genBody rnd j t = Inr t' \<and> genInv numbersIn (Suc j) t'"
      if "j < i" and "genInv numbersIn j t" for j t
    proof (rule genInv_step [OF ops])
      show "genInv numbersIn j t" by (rule that(2))
      show "j < 9" using that(1) i by simp
    qed
  qed
  with st0(1) show ?thesis by (simp add: genPrefix_def)
qed

text \<open>
  C2. For any six source numbers (non-negative or not), whatever the random choices,
  \<open>generateRandomSequence\<close> returns, and the sequence it returns has exactly 11 tokens:
  6 numbers, a permutation of the input, and 5 operators out of the four known ones.
\<close>

theorem generateRandomSequence_shape:
  assumes "validRandom rnd numbersIn" and "length numbersIn = 6"
  shows "\<exists>sequence interimResults.
           generateRandomSequence rnd numbersIn = Inr (sequence, interimResults)
           \<and> length sequence = 11
           \<and> length (numbersOf sequence) = 6
           \<and> mset (numbersOf sequence) = mset numbersIn
           \<and> length (operatorsOf sequence) = 5
           \<and> set (operatorsOf sequence) \<subseteq> set operatorSet"
proof -
  from generateRandomSequence_inv [OF assms]
  obtain sequence interimResults stack where
    gen: "generateRandomSequence rnd numbersIn = Inr (sequence, interimResults)"
    and inv: "genInv numbersIn 9 ([], sequence, stack, interimResults)" by blast
  from inv have len: "length sequence = 11"
    and ms: "mset (numbersOf sequence) = mset numbersIn"
    and sub: "set (operatorsOf sequence) \<subseteq> set operatorSet"
    by (simp_all add: genInv_def)
  from ms have n6: "length (numbersOf sequence) = 6"
    using assms(2) by (metis size_mset)
  with len length_numbersOf_operatorsOf [of sequence]
  have o5: "length (operatorsOf sequence) = 5" by simp
  from gen len ms sub n6 o5 show ?thesis by simp
qed

theorem generateRandomSequence_shape_witness:
  "validRandom numbersFirst [25, 8, 3, 1, 1, 6] \<and> length [25, 8, 3, 1, 1, 6 :: int] = 6
   \<and> (\<exists>sequence interimResults.
         generateRandomSequence numbersFirst [25, 8, 3, 1, 1, 6] = Inr (sequence, interimResults)
         \<and> length sequence = 11
         \<and> length (numbersOf sequence) = 6
         \<and> mset (numbersOf sequence) = mset [25, 8, 3, 1, 1, 6]
         \<and> length (operatorsOf sequence) = 5
         \<and> set (operatorsOf sequence) \<subseteq> set operatorSet)"
proof -
  have v: "validRandom numbersFirst [25, 8, 3, 1, 1, 6]"
    by (simp add: validRandom_def numbersFirst_def)
  have l: "length [25, 8, 3, 1, 1, 6 :: int] = 6" by simp
  from generateRandomSequence_shape [OF v l] v l show ?thesis by blast
qed

text \<open>
  C3. Before every iteration of the loop the generator has a state, and whenever that
  iteration takes the operator branch, the four operators drawn are not all illegal on
  the stack (\<open>+\<close> never raises on two operands). The generator raises no exception
  to its caller, so no \<open>ValueError\<close>.
\<close>

theorem generateRandomSequence_never_exhausted:
  assumes "validRandom rnd numbersIn" and "length numbersIn = 6"
  shows "(\<forall>i<9. \<exists>numbers sequence stack interimResults.
            genPrefix rnd numbersIn i = Inr (numbers, sequence, stack, interimResults)
            \<and> (\<not> nextElementIsNumber rnd i stack numbers
                 \<longrightarrow> \<not> allIllegal stack (sample rnd i)))
         \<and> (\<forall>err. generateRandomSequence rnd numbersIn \<noteq> Inl err)"
proof (intro conjI allI impI)
  fix i :: nat assume i: "i < 9"
  then have "i \<le> 9" by simp
  from genPrefix_inv [OF assms this] obtain st where
    st: "genPrefix rnd numbersIn i = Inr st" "genInv numbersIn i st" by blast
  obtain numbers sequence stack interim where
    steq: "st = (numbers, sequence, stack, interim)" by (cases st) auto
  have "\<not> allIllegal stack (sample rnd i)" if "\<not> nextElementIsNumber rnd i stack numbers"
  proof -
    from that have "2 \<le> length stack"
      by (auto simp: nextElementIsNumber_def split: if_splits)
    from two_top [OF this] obtain s a b where s: "stack = s @ [a, b]" by blast
    from assms(1) have "mset (sample rnd i) = mset operatorSet"
      by (simp add: validRandom_def)
    then have "set (sample rnd i) = set operatorSet" by (rule mset_eq_setD)
    then have plus: "''+'' \<in> set (sample rnd i)" by (simp add: operatorSet_def)
    have "\<not> raisesValueError stack ''+''"
      by (simp add: raisesValueError_def s rpnEvaluate_add)
    with plus show ?thesis by (auto simp: allIllegal_def list_all_iff)
  qed
  with st(1) steq
  show "\<exists>numbers sequence stack interimResults.
            genPrefix rnd numbersIn i = Inr (numbers, sequence, stack, interimResults)
            \<and> (\<not> nextElementIsNumber rnd i stack numbers
                 \<longrightarrow> \<not> allIllegal stack (sample rnd i))" by blast
next
  fix err
  from generateRandomSequence_inv [OF assms]
  show "generateRandomSequence rnd numbersIn \<noteq> Inl err" by auto
qed

theorem generateRandomSequence_never_exhausted_witness:
  "validRandom operatorsFirst [25, 8, 3, 1, 1, 6] \<and> length [25, 8, 3, 1, 1, 6 :: int] = 6
   \<and> genPrefix operatorsFirst [25, 8, 3, 1, 1, 6] 0
       = Inr ([6, 1, 1, 3], [Number 25, Number 8], [25, 8], [25, 8, 3, 1, 1, 6])
   \<and> \<not> nextElementIsNumber operatorsFirst 0 [25, 8] [6, 1, 1, 3]
   \<and> \<not> allIllegal [25, 8] (sample operatorsFirst 0)
   \<and> generateRandomSequence operatorsFirst [25, 8, 3, 1, 1, 6] \<noteq> Inl ValueError"
proof -
  have v: "validRandom operatorsFirst [25, 8, 3, 1, 1, 6]"
    by (simp add: validRandom_def operatorsFirst_def)
  have l: "length [25, 8, 3, 1, 1, 6 :: int] = 6" by simp
  have p: "genPrefix operatorsFirst [25, 8, 3, 1, 1, 6] 0
             = Inr ([6, 1, 1, 3], [Number 25, Number 8], [25, 8], [25, 8, 3, 1, 1, 6])"
    by (simp add: genPrefix_def genInit_def operatorsFirst_def pop_def Let_def)
  have n: "\<not> nextElementIsNumber operatorsFirst 0 [25, 8] [6, 1, 1, 3]"
    by (simp add: nextElementIsNumber_def operatorsFirst_def)
  note ne = generateRandomSequence_never_exhausted [OF v l]
  from ne have "\<exists>numbers sequence stack interimResults.
      genPrefix operatorsFirst [25, 8, 3, 1, 1, 6] 0
        = Inr (numbers, sequence, stack, interimResults)
      \<and> (\<not> nextElementIsNumber operatorsFirst 0 stack numbers
           \<longrightarrow> \<not> allIllegal stack (sample operatorsFirst 0))"
    by simp
  with p n have a: "\<not> allIllegal [25, 8] (sample operatorsFirst 0)" by auto
  from ne have e: "generateRandomSequence operatorsFirst [25, 8, 3, 1, 1, 6] \<noteq> Inl ValueError"
    by blast
  from v l p n a e show ?thesis by simp
qed

text \<open>
  C5. As stated the claim fails: the excess of operands over operators is 1 at prefixes
  other than the whole sequence. When the coin selects an operator on a stack of two,
  the prefix \<open>n n op\<close> has excess 1, and the guard \<open>len(stack) < 2\<close> then forces a
  number. What holds: at every non-empty prefix of a returned sequence the excess is at
  least 1, and for the whole sequence it is exactly 1.
\<close>

theorem generateRandomSequence_prefixes:
  assumes "validRandom rnd numbersIn" and "length numbersIn = 6"
  shows "\<exists>sequence interimResults.
           generateRandomSequence rnd numbersIn = Inr (sequence, interimResults)
           \<and> length sequence = 11
           \<and> (\<forall>j. 1 \<le> j \<and> j \<le> length sequence \<longrightarrow> 1 \<le> operandExcess (take j sequence))
           \<and> operandExcess sequence = 1"
proof -
  from generateRandomSequence_inv [OF assms]
  obtain sequence interimResults stack where
    gen: "generateRandomSequence rnd numbersIn = Inr (sequence, interimResults)"
    and inv: "genInv numbersIn 9 ([], sequence, stack, interimResults)" by blast
  from inv have pre: "\<forall>j. 1 \<le> j \<and> j \<le> length sequence \<longrightarrow> 1 \<le> operandExcess (take j sequence)"
    and exc: "operandExcess sequence = int (length stack)"
    and one: "length stack = 1"
    and len: "length sequence = 11"
    by (simp_all add: genInv_def)
  from gen pre exc one len show ?thesis by simp
qed

theorem generateRandomSequence_prefixes_witness:
  "validRandom operatorsFirst [1, 2, 3, 4, 5, 6] \<and> length [1, 2, 3, 4, 5, 6 :: int] = 6
   \<and> (\<exists>sequence interimResults.
         generateRandomSequence operatorsFirst [1, 2, 3, 4, 5, 6] = Inr (sequence, interimResults)
         \<and> length sequence = 11
         \<and> (\<forall>j. 1 \<le> j \<and> j \<le> length sequence \<longrightarrow> 1 \<le> operandExcess (take j sequence))
         \<and> operandExcess sequence = 1)"
proof -
  have v: "validRandom operatorsFirst [1, 2, 3, 4, 5, 6]"
    by (simp add: validRandom_def operatorsFirst_def)
  have l: "length [1, 2, 3, 4, 5, 6 :: int] = 6" by simp
  from generateRandomSequence_prefixes [OF v l] v l show ?thesis by blast
qed

text \<open>
  C5, counterexample. With the coin always choosing an operator, the generator returns
  \<open>1 2 + 3 + 4 + 5 + 6 +\<close> for the numbers 1 to 6; its prefix of three tokens is not
  the whole sequence and has excess 1.
\<close>

theorem generateRandomSequence_excess_one_early:
  "validRandom operatorsFirst [1, 2, 3, 4, 5, 6]
   \<and> generateRandomSequence operatorsFirst [1, 2, 3, 4, 5, 6]
       = Inr ([Number 1, Number 2, Str ''+'', Number 3, Str ''+'', Number 4, Str ''+'',
               Number 5, Str ''+'', Number 6, Str ''+''],
              [1, 2, 3, 4, 5, 6, 3, 6, 10, 15, 21])
   \<and> operandExcess (take 3 [Number 1, Number 2, Str ''+'', Number 3, Str ''+'', Number 4,
                            Str ''+'', Number 5, Str ''+'', Number 6, Str ''+'']) = 1
   \<and> take 3 [Number 1, Number 2, Str ''+'', Number 3, Str ''+'', Number 4,
             Str ''+'', Number 5, Str ''+'', Number 6, Str ''+'']
       \<noteq> [Number 1, Number 2, Str ''+'', Number 3, Str ''+'', Number 4,
          Str ''+'', Number 5, Str ''+'', Number 6, Str ''+'']"
proof -
  have v: "validRandom operatorsFirst [1, 2, 3, 4, 5, 6]"
    by (simp add: validRandom_def operatorsFirst_def)
  have g: "generateRandomSequence operatorsFirst [1, 2, 3, 4, 5, 6]
       = Inr ([Number 1, Number 2, Str ''+'', Number 3, Str ''+'', Number 4, Str ''+'',
               Number 5, Str ''+'', Number 6, Str ''+''],
              [1, 2, 3, 4, 5, 6, 3, 6, 10, 15, 21])"
    by code_simp
  have e: "operandExcess (take 3 [Number 1, Number 2, Str ''+'', Number 3, Str ''+'', Number 4,
                            Str ''+'', Number 5, Str ''+'', Number 6, Str ''+'']) = 1"
    by (simp add: operandExcess_def)
  from v g e show ?thesis by simp
qed

text \<open>
  C6. The interim results the generator returns are the source numbers, in the order
  given, followed by what replaying the returned sequence through \<open>rpnEvaluate\<close> from
  the empty stack collects: the top of the stack after each operator. The replay raises
  nothing.
\<close>

theorem generateRandomSequence_replay:
  assumes "validRandom rnd numbersIn" and "length numbersIn = 6"
  shows "\<exists>sequence interimResults stack tops.
           generateRandomSequence rnd numbersIn = Inr (sequence, interimResults)
           \<and> replay sequence = Inr (stack, tops)
           \<and> interimResults = numbersIn @ tops"
proof -
  from generateRandomSequence_inv [OF assms]
  obtain sequence interimResults stack where
    gen: "generateRandomSequence rnd numbersIn = Inr (sequence, interimResults)"
    and inv: "genInv numbersIn 9 ([], sequence, stack, interimResults)" by blast
  from inv obtain tops where "replay sequence = Inr (stack, tops)"
    "interimResults = numbersIn @ tops"
    by (auto simp: genInv_def)
  with gen show ?thesis by blast
qed

theorem generateRandomSequence_replay_witness:
  "validRandom numbersFirst [1, 2, 3, 4, 5, 6] \<and> length [1, 2, 3, 4, 5, 6 :: int] = 6
   \<and> (\<exists>sequence interimResults stack tops.
           generateRandomSequence numbersFirst [1, 2, 3, 4, 5, 6] = Inr (sequence, interimResults)
           \<and> replay sequence = Inr (stack, tops)
           \<and> interimResults = [1, 2, 3, 4, 5, 6] @ tops)
   \<and> generateRandomSequence numbersFirst [1, 2, 3, 4, 5, 6]
       = Inr ([Number 1, Number 2, Number 3, Number 4, Number 5, Number 6,
               Str ''*'', Str ''*'', Str ''*'', Str ''*'', Str ''*''],
              [1, 2, 3, 4, 5, 6, 30, 120, 360, 720, 720])
   \<and> replay [Number 1, Number 2, Number 3, Number 4, Number 5, Number 6,
              Str ''*'', Str ''*'', Str ''*'', Str ''*'', Str ''*'']
       = Inr ([720], [30, 120, 360, 720, 720])"
proof -
  have v: "validRandom numbersFirst [1, 2, 3, 4, 5, 6]"
    by (simp add: validRandom_def numbersFirst_def)
  have l: "length [1, 2, 3, 4, 5, 6 :: int] = 6" by simp
  have g: "generateRandomSequence numbersFirst [1, 2, 3, 4, 5, 6]
       = Inr ([Number 1, Number 2, Number 3, Number 4, Number 5, Number 6,
               Str ''*'', Str ''*'', Str ''*'', Str ''*'', Str ''*''],
              [1, 2, 3, 4, 5, 6, 30, 120, 360, 720, 720])"
    by code_simp
  have r: "replay [Number 1, Number 2, Number 3, Number 4, Number 5, Number 6,
              Str ''*'', Str ''*'', Str ''*'', Str ''*'', Str ''*'']
       = Inr ([720], [30, 120, 360, 720, 720])"
    by code_simp
  from generateRandomSequence_replay [OF v l] v l g r show ?thesis by blast
qed

subsection \<open>The closest solution of the search loop\<close>

lemma scanResults_offer:
  "scanResults target sequence closest interimResults =
     foldl (offer target) closest (map (\<lambda>result. (result, sequence)) interimResults)"
  by (induction interimResults arbitrary: closest) (simp_all add: scanResults_def offer_def)

lemma scanAttempts_offer:
  "scanAttempts target closest attempts = foldl (offer target) closest (candidatesOf attempts)"
proof (induction attempts arbitrary: closest)
  case Nil
  then show ?case by (simp add: candidatesOf_def)
next
  case (Cons a attempts)
  obtain sequence interimResults where a: "a = (sequence, interimResults)" by (cases a)
  have "candidatesOf (a # attempts)
          = map (\<lambda>result. (result, sequence)) interimResults @ candidatesOf attempts"
    by (simp add: candidatesOf_def a)
  then show ?case by (simp add: a Cons.IH scanResults_offer)
qed

lemma offer_first_closest:
  assumes "cs \<noteq> []"
  shows "\<exists>i<length cs. foldl (offer target) None cs = Some (cs ! i)
           \<and> (\<forall>j<length cs. \<bar>target - fst (cs ! i)\<bar> \<le> \<bar>target - fst (cs ! j)\<bar>)
           \<and> (\<forall>j<i. \<bar>target - fst (cs ! i)\<bar> < \<bar>target - fst (cs ! j)\<bar>)"
  using assms
proof (induction cs rule: rev_nonempty_induct)
  case (single x)
  show ?case by (simp add: offer_def updateClosest_def)
next
  case (snoc x xs)
  then obtain i where i: "i < length xs" "foldl (offer target) None xs = Some (xs ! i)"
    and least: "\<forall>j<length xs. \<bar>target - fst (xs ! i)\<bar> \<le> \<bar>target - fst (xs ! j)\<bar>"
    and first: "\<forall>j<i. \<bar>target - fst (xs ! i)\<bar> < \<bar>target - fst (xs ! j)\<bar>"
    by blast
  show ?case
  proof (cases "\<bar>target - fst x\<bar> < \<bar>target - fst (xs ! i)\<bar>")
    case True
    have f: "foldl (offer target) None (xs @ [x]) = Some ((xs @ [x]) ! length xs)"
      using True i(2) by (simp add: offer_def updateClosest_def)
    have l: "\<forall>j<length (xs @ [x]).
               \<bar>target - fst ((xs @ [x]) ! length xs)\<bar> \<le> \<bar>target - fst ((xs @ [x]) ! j)\<bar>"
    proof (intro allI impI)
      fix j assume "j < length (xs @ [x])"
      then consider "j < length xs" | "j = length xs" by fastforce
      then show "\<bar>target - fst ((xs @ [x]) ! length xs)\<bar> \<le> \<bar>target - fst ((xs @ [x]) ! j)\<bar>"
      proof cases
        case 1
        with least have "\<bar>target - fst (xs ! i)\<bar> \<le> \<bar>target - fst (xs ! j)\<bar>" by blast
        with True 1 show ?thesis by (simp add: nth_append)
      next
        case 2
        then show ?thesis by simp
      qed
    qed
    have e: "\<forall>j<length xs.
               \<bar>target - fst ((xs @ [x]) ! length xs)\<bar> < \<bar>target - fst ((xs @ [x]) ! j)\<bar>"
    proof (intro allI impI)
      fix j assume j: "j < length xs"
      with least have "\<bar>target - fst (xs ! i)\<bar> \<le> \<bar>target - fst (xs ! j)\<bar>" by blast
      with True j show "\<bar>target - fst ((xs @ [x]) ! length xs)\<bar> < \<bar>target - fst ((xs @ [x]) ! j)\<bar>"
        by (simp add: nth_append)
    qed
    have "length xs < length (xs @ [x])" by simp
    with f l e show ?thesis by blast
  next
    case False
    have f: "foldl (offer target) None (xs @ [x]) = Some ((xs @ [x]) ! i)"
      using False i by (simp add: offer_def updateClosest_def nth_append)
    have l: "\<forall>j<length (xs @ [x]).
               \<bar>target - fst ((xs @ [x]) ! i)\<bar> \<le> \<bar>target - fst ((xs @ [x]) ! j)\<bar>"
    proof (intro allI impI)
      fix j assume "j < length (xs @ [x])"
      then consider "j < length xs" | "j = length xs" by fastforce
      then show "\<bar>target - fst ((xs @ [x]) ! i)\<bar> \<le> \<bar>target - fst ((xs @ [x]) ! j)\<bar>"
      proof cases
        case 1
        with least i(1) show ?thesis by (simp add: nth_append)
      next
        case 2
        with False i(1) show ?thesis by (simp add: nth_append)
      qed
    qed
    have e: "\<forall>j<i. \<bar>target - fst ((xs @ [x]) ! i)\<bar> < \<bar>target - fst ((xs @ [x]) ! j)\<bar>"
      using first i(1) by (simp add: nth_append)
    have "i < length (xs @ [x])" using i(1) by simp
    with f l e show ?thesis by blast
  qed
qed

text \<open>
  C9. The loop body replaces \<open>closestSolution\<close> exactly when there is none yet or the
  new result is strictly closer to the target. After any attempts with at least one
  interim result, started with no candidate, \<open>closestSolution\<close> is the first of all
  the results seen, paired with its sequence, whose distance to the target is least:
  no result seen is closer, and every earlier one is strictly farther.
\<close>

theorem closestSolution_first_closest:
  "updateClosest target sequence closestSolution result =
     (if closestSolution = None \<or> \<bar>target - result\<bar> < \<bar>target - fst (the closestSolution)\<bar>
      then Some (result, sequence) else closestSolution)
   \<and> (candidatesOf attempts \<noteq> [] \<longrightarrow>
        (\<exists>i<length (candidatesOf attempts).
           scanAttempts target None attempts = Some (candidatesOf attempts ! i)
           \<and> (\<forall>j<length (candidatesOf attempts).
                 \<bar>target - fst (candidatesOf attempts ! i)\<bar>
                   \<le> \<bar>target - fst (candidatesOf attempts ! j)\<bar>)
           \<and> (\<forall>j<i. \<bar>target - fst (candidatesOf attempts ! i)\<bar>
                        < \<bar>target - fst (candidatesOf attempts ! j)\<bar>)))"
proof
  show "updateClosest target sequence closestSolution result =
     (if closestSolution = None \<or> \<bar>target - result\<bar> < \<bar>target - fst (the closestSolution)\<bar>
      then Some (result, sequence) else closestSolution)"
    by (cases closestSolution) (simp_all add: updateClosest_def)
next
  show "candidatesOf attempts \<noteq> [] \<longrightarrow>
        (\<exists>i<length (candidatesOf attempts).
           scanAttempts target None attempts = Some (candidatesOf attempts ! i)
           \<and> (\<forall>j<length (candidatesOf attempts).
                 \<bar>target - fst (candidatesOf attempts ! i)\<bar>
                   \<le> \<bar>target - fst (candidatesOf attempts ! j)\<bar>)
           \<and> (\<forall>j<i. \<bar>target - fst (candidatesOf attempts ! i)\<bar>
                        < \<bar>target - fst (candidatesOf attempts ! j)\<bar>))"
    using offer_first_closest [of "candidatesOf attempts" target]
    by (simp add: scanAttempts_offer)
qed


theorem closestSolution_first_closest_witness:
  "candidatesOf [([Number 1], [3, 8, 7]), ([Number 2], [12, 9, 11, 9])] \<noteq> []
   \<and> (\<exists>i<length (candidatesOf [([Number 1], [3, 8, 7]), ([Number 2], [12, 9, 11, 9])]).
         scanAttempts 10 None [([Number 1], [3, 8, 7]), ([Number 2], [12, 9, 11, 9])]
           = Some (candidatesOf [([Number 1], [3, 8, 7]), ([Number 2], [12, 9, 11, 9])] ! i))
   \<and> scanAttempts 10 None [([Number 1], [3, 8, 7]), ([Number 2], [12, 9, 11, 9])]
       = Some (9, [Number 2])
   \<and> updateClosest 10 [Number 2] (Some (8, [Number 1])) 12 = Some (8, [Number 1])"
proof -
  let ?A = "[([Number 1], [3, 8, 7]), ([Number 2], [12, 9, 11, 9 :: int])]"
  have ne: "candidatesOf ?A \<noteq> []" by (simp add: candidatesOf_def)
  have s: "scanAttempts 10 None ?A = Some (9, [Number 2])"
    by (simp add: scanResults_def updateClosest_def)
  note c = closestSolution_first_closest [of 10 "[Number 2]" "Some (8, [Number 1])" 12 ?A]
  from c have u: "updateClosest 10 [Number 2] (Some (8, [Number 1])) 12 = Some (8, [Number 1])"
    by simp
  from c ne have "\<exists>i<length (candidatesOf ?A).
      scanAttempts 10 None ?A = Some (candidatesOf ?A ! i)" by blast
  with ne s u show ?thesis by simp
qed

subsection \<open>Properties of formatSolution\<close>

text \<open>
  C8. \<open>formatSolution([5, 5, '+'], 10)\<close>, with the default \<open>ignoreMultiplyByOne=True\<close>
  and also without it, returns the string \<open>(5 + 5) = 10\<close> and the count 2.
\<close>

theorem formatSolution_five_plus_five:
  "formatSolution [Number 5, Number 5, Str ''+''] 10 True = Inr (''(5 + 5) = 10'', 2)
   \<and> formatSolution [Number 5, Number 5, Str ''+''] 10 False = Inr (''(5 + 5) = 10'', 2)"
  by code_simp

text \<open>
  C10. Whenever \<open>formatSolution\<close> returns, the string it returns is the expression on
  top of \<open>outputStack\<close> followed by \<open> = \<close> and the decimal numeral of the target it
  was given; nothing compares the target with the value of that expression. The loop
  breaks only after an operator was applied and left the target on top of \<open>calcStack\<close>.
\<close>

theorem formatSolution_target_suffix:
  "(formatSolution sequence target ignoreMultiplyByOne = Inr (formattedSolution, numbersUsed) \<longrightarrow>
      (\<exists>calcStack outputStack.
         formatLoop ignoreMultiplyByOne target [] [] sequence = Inr (calcStack, outputStack)
         \<and> outputStack \<noteq> []
         \<and> formattedSolution = last outputStack @ '' = '' @ pyStr target))
   \<and> (formatElement ignoreMultiplyByOne target calcStack outputStack element
         = Inr (calcStack', outputStack', True) \<longrightarrow>
        (\<exists>s. element = Str s) \<and> calcStack' \<noteq> [] \<and> last calcStack' = target)"
proof (intro conjI impI)
  assume "formatSolution sequence target ignoreMultiplyByOne = Inr (formattedSolution, numbersUsed)"
  then show "\<exists>calcStack outputStack.
         formatLoop ignoreMultiplyByOne target [] [] sequence = Inr (calcStack, outputStack)
         \<and> outputStack \<noteq> []
         \<and> formattedSolution = last outputStack @ '' = '' @ pyStr target"
    by (auto simp: formatSolution_def split: sum.splits prod.splits if_splits)
next
  assume a: "formatElement ignoreMultiplyByOne target calcStack outputStack element
         = Inr (calcStack', outputStack', True)"
  then show "\<exists>s. element = Str s"
    by (auto simp: formatElement_def Let_def
        split: sum.splits prod.splits if_splits element.splits)
  from a show "calcStack' \<noteq> []"
    by (auto simp: formatElement_def Let_def
        split: sum.splits prod.splits if_splits element.splits)
  from a show "last calcStack' = target"
    by (auto simp: formatElement_def Let_def
        split: sum.splits prod.splits if_splits element.splits)
qed

theorem formatSolution_target_suffix_witness:
  "formatSolution [Number 5, Number 5, Str ''+''] 11 True = Inr (''(5 + 5) = 11'', 2)
   \<and> (\<exists>calcStack outputStack.
         formatLoop True 11 [] [] [Number 5, Number 5, Str ''+''] = Inr (calcStack, outputStack)
         \<and> outputStack \<noteq> []
         \<and> ''(5 + 5) = 11'' = last outputStack @ '' = '' @ pyStr 11)
   \<and> formatLoop True 11 [] [] [Number 5, Number 5, Str ''+''] = Inr ([10], [''(5 + 5)''])
   \<and> formatElement True 10 [5, 5] [''5'', ''5''] (Str ''+'') = Inr ([10], [''(5 + 5)''], True)
   \<and> last [10] = (10 :: int)"
proof -
  have f: "formatSolution [Number 5, Number 5, Str ''+''] 11 True = Inr (''(5 + 5) = 11'', 2)"
    by code_simp
  have g: "formatLoop True 11 [] [] [Number 5, Number 5, Str ''+''] = Inr ([10], [''(5 + 5)''])"
    by code_simp
  have e: "formatElement True 10 [5, 5] [''5'', ''5''] (Str ''+'') = Inr ([10], [''(5 + 5)''], True)"
    by code_simp
  from formatSolution_target_suffix
         [where sequence = "[Number 5, Number 5, Str ''+'']" and target = 11
            and ignoreMultiplyByOne = True and formattedSolution = "''(5 + 5) = 11''"
            and numbersUsed = 2] f
  have x: "\<exists>calcStack outputStack.
         formatLoop True 11 [] [] [Number 5, Number 5, Str ''+''] = Inr (calcStack, outputStack)
         \<and> outputStack \<noteq> []
         \<and> ''(5 + 5) = 11'' = last outputStack @ '' = '' @ pyStr 11"
    by blast
  from formatSolution_target_suffix
         [where target = 10 and ignoreMultiplyByOne = True and calcStack = "[5, 5]"
            and outputStack = "[''5'', ''5'']" and element = "Str ''+''"
            and calcStack' = "[10]" and outputStack' = "[''(5 + 5)'']"] e
  have y: "last [10] = (10 :: int)"
    by blast
  from f x g e y show ?thesis by (intro conjI)
qed

text \<open>
  C7. The sequence \<open>100 1 * 2 + 3 + 4 + 5 +\<close> is one the generator returns for the numbers
  100, 1, 2, 3, 4, 5, and 100 is among its interim results. Formatted for the target 100
  without the simplification, the loop stops at \<open>(100 * 1)\<close> with 100 on the stack; with
  it, the skipped \<open>*\<close> also skips the comparison with the target, and the loop runs on to
  \<open>((((100 + 2) + 3) + 4) + 5)\<close> with 114 on the stack.
\<close>

theorem formatSolution_simplification_changes_value:
  "validRandom timesOneFirst [100, 1, 2, 3, 4, 5]
   \<and> generateRandomSequence timesOneFirst [100, 1, 2, 3, 4, 5]
       = Inr ([Number 100, Number 1, Str ''*'', Number 2, Str ''+'', Number 3, Str ''+'',
               Number 4, Str ''+'', Number 5, Str ''+''],
              [100, 1, 2, 3, 4, 5, 100, 102, 105, 109, 114])
   \<and> formatLoop False 100 [] []
        [Number 100, Number 1, Str ''*'', Number 2, Str ''+'', Number 3, Str ''+'',
         Number 4, Str ''+'', Number 5, Str ''+'']
       = Inr ([100], [''(100 * 1)''])
   \<and> formatLoop True 100 [] []
        [Number 100, Number 1, Str ''*'', Number 2, Str ''+'', Number 3, Str ''+'',
         Number 4, Str ''+'', Number 5, Str ''+'']
       = Inr ([114], [''((((100 + 2) + 3) + 4) + 5)''])
   \<and> formatSolution
        [Number 100, Number 1, Str ''*'', Number 2, Str ''+'', Number 3, Str ''+'',
         Number 4, Str ''+'', Number 5, Str ''+''] 100 False
       = Inr (''(100 * 1) = 100'', 2)
   \<and> formatSolution
        [Number 100, Number 1, Str ''*'', Number 2, Str ''+'', Number 3, Str ''+'',
         Number 4, Str ''+'', Number 5, Str ''+''] 100 True
       = Inr (''((((100 + 2) + 3) + 4) + 5) = 100'', 5)"
proof -
  have v: "validRandom timesOneFirst [100, 1, 2, 3, 4, 5]"
    by (simp add: validRandom_def timesOneFirst_def operatorSet_def)
  have g: "generateRandomSequence timesOneFirst [100, 1, 2, 3, 4, 5]
       = Inr ([Number 100, Number 1, Str ''*'', Number 2, Str ''+'', Number 3, Str ''+'',
               Number 4, Str ''+'', Number 5, Str ''+''],
              [100, 1, 2, 3, 4, 5, 100, 102, 105, 109, 114])"
    by code_simp
  have a: "formatLoop False 100 [] []
        [Number 100, Number 1, Str ''*'', Number 2, Str ''+'', Number 3, Str ''+'',
         Number 4, Str ''+'', Number 5, Str ''+'']
       = Inr ([100], [''(100 * 1)''])"
    by code_simp
  have b: "formatLoop True 100 [] []
        [Number 100, Number 1, Str ''*'', Number 2, Str ''+'', Number 3, Str ''+'',
         Number 4, Str ''+'', Number 5, Str ''+'']
       = Inr ([114], [''((((100 + 2) + 3) + 4) + 5)''])"
    by code_simp
  have c: "formatSolution
        [Number 100, Number 1, Str ''*'', Number 2, Str ''+'', Number 3, Str ''+'',
         Number 4, Str ''+'', Number 5, Str ''+''] 100 False
       = Inr (''(100 * 1) = 100'', 2)"
    by code_simp
  have d: "formatSolution
        [Number 100, Number 1, Str ''*'', Number 2, Str ''+'', Number 3, Str ''+'',
         Number 4, Str ''+'', Number 5, Str ''+''] 100 True
       = Inr (''((((100 + 2) + 3) + 4) + 5) = 100'', 5)"
    by code_simp
  from v g a b c d show ?thesis by (intro conjI)
qed

end
